theory Spec2Isabelle
  imports Main "HOL-Library.Sublist"
begin

section \<open>Text\<close>

text \<open>
  A Python \<open>str\<close> is a sequence of code points. The model uses \<^typ>\<open>string\<close>, whose
  characters are read as the code points U+0000 .. U+00FF, one \<^typ>\<open>char\<close> each. On
  that range \<open>isspace\<close> and \<open>lower\<close> below are Python's \<open>str.isspace\<close> and
  \<open>str.lower\<close>. A frame cell is a text or \<open>NaN\<close> (\<open>None\<close>).
\<close>

type_synonym cell = "string option"

definition isspace :: "char \<Rightarrow> bool" where
  "isspace c = (let n = (of_char c :: nat) in
     (9 \<le> n \<and> n \<le> 13) \<or> (28 \<le> n \<and> n \<le> 32) \<or> n = 133 \<or> n = 160)"

definition lower_char :: "char \<Rightarrow> char" where
  "lower_char c = (let n = (of_char c :: nat) in
     if (65 \<le> n \<and> n \<le> 90) \<or> (192 \<le> n \<and> n \<le> 222 \<and> n \<noteq> 215)
     then char_of (n + 32) else c)"

definition lower :: "string \<Rightarrow> string" where
  "lower s = map lower_char s"

text \<open>\<open>s.strip()\<close>: leading and trailing whitespace removed.\<close>

definition strip :: "string \<Rightarrow> string" where
  "strip s = rev (dropWhile isspace (rev (dropWhile isspace s)))"

text \<open>\<open>x.split(" ", 1)\<close>: cut at the first space character, if there is one.\<close>

definition split_space1 :: "string \<Rightarrow> string list" where
  "split_space1 s =
     (if CHR '' '' \<in> set s
      then [takeWhile (\<lambda>c. c \<noteq> CHR '' '') s, tl (dropWhile (\<lambda>c. c \<noteq> CHR '' '') s)]
      else [s])"

text \<open>The character class \<open>[a-zA-Z0-9 ]\<close> of the pattern in \<open>infer_domain\<close>.\<close>

definition in_class :: "char \<Rightarrow> bool" where
  "in_class c = (let n = (of_char c :: nat) in
     (97 \<le> n \<and> n \<le> 122) \<or> (65 \<le> n \<and> n \<le> 90) \<or> (48 \<le> n \<and> n \<le> 57) \<or> c = CHR '' '')"

text \<open>\<open>re.sub(r"[^a-zA-Z0-9 ]", "", s)\<close>: every character outside the class is a match
  and is replaced by the empty string.\<close>

fun re_sub_not_in_class :: "string \<Rightarrow> string" where
  "re_sub_not_in_class [] = []"
| "re_sub_not_in_class (c # cs) =
     (if in_class c then c # re_sub_not_in_class cs else re_sub_not_in_class cs)"

text \<open>\<open>s.replace(" ", "")\<close>.\<close>

fun replace_space :: "string \<Rightarrow> string" where
  "replace_space [] = []"
| "replace_space (c # cs) =
     (if c = CHR '' '' then replace_space cs else c # replace_space cs)"

section \<open>Frames\<close>

text \<open>
  The exceptions the script can raise, none of which it catches, by their Python class.
  \<open>OSError\<close> stands for its subclasses \<open>FileNotFoundError\<close> and \<open>PermissionError\<close>, raised
  by \<open>pd.read_excel\<close> on a path that is missing or unreadable, by \<open>mkdir\<close> and by
  \<open>to_csv\<close>. \<open>KeyError\<close> carries the key that was not found: the labels that
  \<open>df[["Name", "Title", "Company"]]\<close> or \<open>drop\<close> did not find, or the position \<open>j\<close> of
  \<open>name_split[j]\<close> when the expanded split has no column \<open>j\<close>. \<open>TypeError\<close> is raised by
  \<open>keyword in title\<close> and by \<open>re.sub\<close> on \<open>NaN\<close>. \<open>UnicodeEncodeError\<close> is raised by
  \<open>print\<close> on a standard output whose encoding lacks the non-ASCII characters that
  open the two summary lines.
\<close>

datatype key = Labels "string list" | Position nat

datatype error = OSError | KeyError key | TypeError | UnicodeEncodeError

text \<open>
  The frame \<open>pd.read_excel\<close> returns: its column labels and its rows, each a mapping
  from label to text, where \<open>None\<close> is \<open>NaN\<close> (a missing or empty spreadsheet cell).
  The index of a row is its position.
\<close>

record raw_frame =
  columns :: "string list"
  rows :: "(string \<rightharpoonup> string) list"

text \<open>A row of the frame after column selection, with its index label; later stages
  add columns.\<close>

record row =
  idx :: nat
  Name :: cell
  Title :: cell
  Company :: cell

record named_row = row +
  FirstName :: cell
  LastName :: cell

record domain_row = named_row +
  Domain_col :: cell

record email_row = domain_row +
  Email_1 :: cell
  Email_2 :: cell

text \<open>\<open>Series.apply(f)\<close> with an \<open>f\<close> that may raise: the first exception ends the call.\<close>

fun apply_rows :: "('a \<Rightarrow> error + 'b) \<Rightarrow> 'a list \<Rightarrow> error + 'b list" where
  "apply_rows f [] = Inr []"
| "apply_rows f (x # xs) =
     (case f x of
        Inl e \<Rightarrow> Inl e
      | Inr y \<Rightarrow> (case apply_rows f xs of Inl e \<Rightarrow> Inl e | Inr ys \<Rightarrow> Inr (y # ys)))"

subsection \<open>Step 1: load data\<close>

definition expected_columns :: "string list" where
  "expected_columns = [''Name'', ''Title'', ''Company'']"

text \<open>\<open>df[["Name", "Title", "Company"]]\<close>.\<close>

definition select_columns :: "raw_frame \<Rightarrow> error + row list" where
  "select_columns df =
     (let missing = filter (\<lambda>c. c \<notin> set (columns df)) expected_columns in
      if missing \<noteq> [] then Inl (KeyError (Labels missing))
      else Inr (map (\<lambda>(i, r). \<lparr>idx = i, Name = r ''Name'', Title = r ''Title'',
                                Company = r ''Company''\<rparr>)
                    (enumerate 0 (rows df))))"

text \<open>\<open>.dropna()\<close> on the three selected columns.\<close>

definition dropna :: "row list \<Rightarrow> row list" where
  "dropna df = filter (\<lambda>r. Name r \<noteq> None \<and> Title r \<noteq> None \<and> Company r \<noteq> None) df"

text \<open>The argument is what lies at \<open>file_path\<close>: \<open>None\<close> when the path does not exist
  or cannot be read.\<close>

definition read_excel :: "raw_frame option \<Rightarrow> error + raw_frame" where
  "read_excel file = (case file of None \<Rightarrow> Inl OSError | Some df \<Rightarrow> Inr df)"

definition load_data :: "raw_frame option \<Rightarrow> error + row list" where
  "load_data file =
     (case read_excel file of
        Inl e \<Rightarrow> Inl e
      | Inr df \<Rightarrow> (case select_columns df of Inl e \<Rightarrow> Inl e | Inr d \<Rightarrow> Inr (dropna d)))"

subsection \<open>Step 2: filter senior executives\<close>

definition senior_keywords :: "string list" where
  "senior_keywords =
     [''chief'', ''ceo'', ''cmo'', ''cto'', ''cfo'', ''coo'',
      ''president'', ''founder'', ''co-founder'', ''evp'', ''svp'']"

text \<open>\<open>.str.lower()\<close> keeps \<open>NaN\<close>.\<close>

definition str_lower :: "cell \<Rightarrow> cell" where
  "str_lower c = map_option lower c"

text \<open>The lambda of line 41, applied to a lowercased title: \<open>keyword in title\<close> is
  substring containment, and raises on \<open>NaN\<close>.\<close>

definition is_senior :: "cell \<Rightarrow> error + bool" where
  "is_senior c =
     (case c of
        None \<Rightarrow> Inl TypeError
      | Some title \<Rightarrow> Inr (list_ex (\<lambda>keyword. sublist keyword title) senior_keywords))"

text \<open>
  The \<open>is_senior\<close> column is the mask of \<open>df[df["is_senior"]]\<close>. With no rows it is
  not of boolean type: the selection is then one of columns, of none, and
  \<open>drop(columns=["is_senior"])\<close> does not find the column.
\<close>

definition filter_senior_execs :: "'a row_scheme list \<Rightarrow> error + 'a row_scheme list" where
  "filter_senior_execs df =
     (case apply_rows is_senior (map (\<lambda>r. str_lower (Title r)) df) of
        Inl e \<Rightarrow> Inl e
      | Inr flags \<Rightarrow>
          if flags = [] then Inl (KeyError (Labels [''is_senior'']))
          else Inr (map fst (filter snd (zip df flags))))"

subsection \<open>Step 3: normalize names\<close>

definition str_strip :: "cell \<Rightarrow> cell" where
  "str_strip c = map_option strip c"

definition str_split :: "cell \<Rightarrow> string list option" where
  "str_split c = map_option split_space1 c"

text \<open>
  \<open>expand=True\<close>: the lists of parts become the rows of a frame with as many columns
  as the longest list (none for no rows); shorter rows, and the rows of \<open>NaN\<close>, are
  filled with \<open>NaN\<close>. The result is the number of columns and the rows.
\<close>

definition cons_row :: "string list option \<Rightarrow> cell list" where
  "cons_row x = (case x of None \<Rightarrow> [None] | Some parts \<Rightarrow> map Some parts)"

definition expand :: "string list option list \<Rightarrow> nat \<times> cell list list" where
  "expand result =
     (let rs = map cons_row result;
          max_len = foldr max (map length rs) 0
      in (max_len, map (\<lambda>x. x @ replicate (max_len - length x) None) rs))"

text \<open>\<open>name_split[j]\<close>: the column labelled \<open>j\<close>, a \<open>KeyError\<close> when there is none.\<close>

definition getitem :: "nat \<times> cell list list \<Rightarrow> nat \<Rightarrow> error + cell list" where
  "getitem frame j =
     (if j < fst frame then Inr (map (\<lambda>x. x ! j) (snd frame)) else Inl (KeyError (Position j)))"

definition split_names :: "row list \<Rightarrow> error + named_row list" where
  "split_names df =
     (let name_split = expand (map (\<lambda>r. str_split (str_strip (Name r))) df) in
      case getitem name_split 0 of
        Inl e \<Rightarrow> Inl e
      | Inr firsts \<Rightarrow>
         (case getitem name_split 1 of
            Inl e \<Rightarrow> Inl e
          | Inr lasts \<Rightarrow>
              Inr (filter (\<lambda>r. LastName r \<noteq> None)
                     (map (\<lambda>(r, f, l). \<lparr>idx = idx r, Name = Name r, Title = Title r,
                                        Company = Company r, FirstName = f, LastName = l\<rparr>)
                          (zip df (zip firsts lasts))))))"

subsection \<open>Step 4: infer email domain\<close>

text \<open>The local \<open>domain\<close> of \<open>infer_domain\<close>.\<close>

definition domain_stem :: "string \<Rightarrow> string" where
  "domain_stem company = replace_space (lower (re_sub_not_in_class company))"

definition infer_domain :: "string \<Rightarrow> string" where
  "infer_domain company = domain_stem company @ ''.com''"

definition add_domains :: "named_row list \<Rightarrow> error + domain_row list" where
  "add_domains df =
     apply_rows
       (\<lambda>r. case Company r of
               None \<Rightarrow> Inl TypeError
             | Some company \<Rightarrow>
                 Inr \<lparr>idx = idx r, Name = Name r, Title = Title r, Company = Company r,
                      FirstName = FirstName r, LastName = LastName r,
                      Domain_col = Some (infer_domain company)\<rparr>)
       df"

subsection \<open>Step 5: generate emails\<close>

text \<open>\<open>+\<close> on columns of text: \<open>NaN\<close> where either side is \<open>NaN\<close>.\<close>

definition str_add :: "cell \<Rightarrow> cell \<Rightarrow> cell" where
  "str_add a b = (case a of None \<Rightarrow> None | Some x \<Rightarrow> (case b of None \<Rightarrow> None | Some y \<Rightarrow> Some (x @ y)))"

definition generate_emails :: "domain_row list \<Rightarrow> email_row list" where
  "generate_emails df =
     map (\<lambda>r. \<lparr>idx = idx r, Name = Name r, Title = Title r, Company = Company r,
               FirstName = FirstName r, LastName = LastName r, Domain_col = Domain_col r,
               Email_1 = str_add (str_add (str_add (str_add (str_lower (FirstName r)) (Some ''.''))
                                    (str_lower (LastName r))) (Some ''@'')) (Domain_col r),
               Email_2 = str_add (str_add (str_lower (FirstName r)) (Some ''@'')) (Domain_col r)\<rparr>)
         df"

subsection \<open>Step 6: pipeline execution\<close>

definition MAX_EXECUTIVES :: nat where
  "MAX_EXECUTIVES = 50"

definition final_columns :: "string list" where
  "final_columns = [''FirstName'', ''LastName'', ''Title'', ''Company'', ''Email_1'', ''Email_2'']"

text \<open>A row of \<open>df[[...]]\<close>: the index label and the cells in the order of
  \<open>final_columns\<close>.\<close>

definition project :: "email_row \<Rightarrow> nat \<times> cell list" where
  "project r = (idx r, [FirstName r, LastName r, Title r, Company r, Email_1 r, Email_2 r])"

text \<open>The content \<open>to_csv(..., index=False)\<close> writes: the header and the rows of cells.\<close>

record csv =
  header :: "string list"
  body :: "cell list list"

definition csv_of :: "(nat \<times> cell list) list \<Rightarrow> csv" where
  "csv_of final_df = \<lparr>header = final_columns, body = map snd final_df\<rparr>"

text \<open>The two summary lines of \<open>main\<close>, each opening with a non-ASCII symbol: the
  number of records, and the output path.\<close>

datatype summary = Generated nat | Output_saved

text \<open>
  What the script reads and changes: what lies at \<open>INPUT_FILE\<close> (\<open>None\<close>: the path does
  not exist or cannot be read), whether the directory of \<open>OUTPUT_FILE\<close> exists and
  whether it can be created, whether \<open>OUTPUT_FILE\<close> can be opened for writing and what
  lies there (\<open>None\<close>: no such file), whether the encoding of the standard output has
  the non-ASCII characters of the summary lines, and the lines printed.
\<close>

record world =
  input_file :: "raw_frame option"
  output_dir :: bool
  can_mkdir :: bool
  can_write :: bool
  output_file :: "csv option"
  stdout_encodes :: bool
  stdout :: "summary list"

text \<open>\<open>OUTPUT_FILE.parent.mkdir(parents=True, exist_ok=True)\<close>.\<close>

definition mkdir :: "world \<Rightarrow> error + world" where
  "mkdir w =
     (if output_dir w then Inr w
      else if can_mkdir w then Inr (w\<lparr>output_dir := True\<rparr>)
      else Inl OSError)"

text \<open>\<open>final_df.to_csv(OUTPUT_FILE, index=False)\<close>.\<close>

definition to_csv :: "(nat \<times> cell list) list \<Rightarrow> world \<Rightarrow> error + world" where
  "to_csv final_df w =
     (if can_write w then Inr (w\<lparr>output_file := Some (csv_of final_df)\<rparr>) else Inl OSError)"

text \<open>\<open>print\<close> of a summary line.\<close>

definition print :: "summary \<Rightarrow> world \<Rightarrow> error + world" where
  "print line w =
     (if stdout_encodes w then Inr (w\<lparr>stdout := stdout w @ [line]\<rparr>)
      else Inl UnicodeEncodeError)"

text \<open>Lines 109 to 121 of \<open>main\<close>: the five stages in sequence.\<close>

definition stages :: "raw_frame option \<Rightarrow> error + email_row list" where
  "stages file =
     (case load_data file of
        Inl e \<Rightarrow> Inl e
      | Inr d1 \<Rightarrow>
         (case filter_senior_execs d1 of
            Inl e \<Rightarrow> Inl e
          | Inr d2 \<Rightarrow>
             (case split_names d2 of
                Inl e \<Rightarrow> Inl e
              | Inr d3 \<Rightarrow>
                 (case add_domains d3 of
                    Inl e \<Rightarrow> Inl e
                  | Inr d4 \<Rightarrow> Inr (generate_emails d4)))))"

text \<open>Lines 124 to 135 of \<open>main\<close>: the projection, the directory, the file and the two
  summary lines.\<close>

definition export :: "email_row list \<Rightarrow> world \<Rightarrow> error option \<times> world" where
  "export df w =
     (let final_df = take MAX_EXECUTIVES (map project df) in
      case mkdir w of
        Inl e \<Rightarrow> (Some e, w)
      | Inr w1 \<Rightarrow>
         (case to_csv final_df w1 of
            Inl e \<Rightarrow> (Some e, w1)
          | Inr w2 \<Rightarrow>
             (case print (Generated (length final_df)) w2 of
                Inl e \<Rightarrow> (Some e, w2)
              | Inr w3 \<Rightarrow>
                 (case print Output_saved w3 of
                    Inl e \<Rightarrow> (Some e, w3)
                  | Inr w4 \<Rightarrow> (None, w4)))))"

text \<open>\<open>main\<close> returns the exception that ended the run, if any, and the world after it.\<close>

definition main :: "world \<Rightarrow> error option \<times> world" where
  "main w =
     (case stages (input_file w) of
        Inl e \<Rightarrow> (Some e, w)
      | Inr df \<Rightarrow> export df w)"

section \<open>The specification's wording and the terms of the statements\<close>

text \<open>The characters the specification lets \<open>infer_domain\<close> keep: the US-ASCII
  letters and digits, and the space.\<close>

definition spec_keep :: "char \<Rightarrow> bool" where
  "spec_keep c =
     (c \<in> set ''abcdefghijklmnopqrstuvwxyz'' \<or> c \<in> set ''ABCDEFGHIJKLMNOPQRSTUVWXYZ'' \<or>
      c \<in> set ''0123456789'' \<or> c = CHR '' '')"

text \<open>Delete every other character, lowercase, delete the spaces, append \<open>.com\<close>.\<close>

definition spec_infer_domain :: "string \<Rightarrow> string" where
  "spec_infer_domain company =
     filter (\<lambda>c. c \<noteq> CHR '' '') (lower (filter spec_keep company)) @ ''.com''"

text \<open>The cut at the first space character: the text before it and the text after
  it, when there is one.\<close>

definition first_space_parts :: "string \<Rightarrow> (string \<times> string) option" where
  "first_space_parts t =
     (if CHR '' '' \<in> set t
      then Some (takeWhile (\<lambda>c. c \<noteq> CHR '' '') t, tl (dropWhile (\<lambda>c. c \<noteq> CHR '' '') t))
      else None)"

text \<open>The row \<open>split_names\<close> keeps for a row, if any.\<close>

definition split_row :: "row \<Rightarrow> named_row option" where
  "split_row r =
     (case Name r of
        None \<Rightarrow> None
      | Some n \<Rightarrow>
          (case first_space_parts (strip n) of
             None \<Rightarrow> None
           | Some (f, l) \<Rightarrow>
               Some \<lparr>idx = idx r, Name = Name r, Title = Title r, Company = Company r,
                     FirstName = Some f, LastName = Some l\<rparr>))"

text \<open>The row of the expanded split that belongs to a frame row, before filling.\<close>

definition name_cells :: "row \<Rightarrow> cell list" where
  "name_cells r = cons_row (str_split (str_strip (Name r)))"

text \<open>A title cell that, lowercased, contains one of the keywords.\<close>

definition senior_title :: "cell \<Rightarrow> bool" where
  "senior_title c =
     (case c of
        None \<Rightarrow> False
      | Some t \<Rightarrow> list_ex (\<lambda>k. sublist k (lower t)) senior_keywords)"

text \<open>The name split as the specification words it: trim, cut at the first run of
  whitespace; the first token and the remainder, or nothing when the trimmed name has
  no whitespace.\<close>

definition spec_split_name :: "string \<Rightarrow> (string \<times> string) option" where
  "spec_split_name name =
     (let t = strip name in
      if list_ex isspace t
      then Some (takeWhile (\<lambda>c. \<not> isspace c) t,
                 dropWhile isspace (dropWhile (\<lambda>c. \<not> isspace c) t))
      else None)"

text \<open>The index label of a row and the three cells it was loaded with.\<close>

definition base :: "'a row_scheme \<Rightarrow> nat \<times> cell \<times> cell \<times> cell" where
  "base r = (idx r, Name r, Title r, Company r)"

text \<open>The same of a spreadsheet row at a position.\<close>

definition raw_base :: "nat \<times> (string \<rightharpoonup> string) \<Rightarrow> nat \<times> cell \<times> cell \<times> cell" where
  "raw_base p = (fst p, snd p ''Name'', snd p ''Title'', snd p ''Company'')"

text \<open>A spreadsheet row with none of Name, Title, Company missing.\<close>

definition complete :: "(string \<rightharpoonup> string) \<Rightarrow> bool" where
  "complete r = (r ''Name'' \<noteq> None \<and> r ''Title'' \<noteq> None \<and> r ''Company'' \<noteq> None)"

text \<open>A name cell whose trimmed text has a space character.\<close>

definition has_last_name :: "cell \<Rightarrow> bool" where
  "has_last_name c = (case c of None \<Rightarrow> False | Some n \<Rightarrow> CHR '' '' \<in> set (strip n))"

text \<open>A spreadsheet row that passes every filtering stage.\<close>

definition survives :: "(string \<rightharpoonup> string) \<Rightarrow> bool" where
  "survives r = (complete r \<and> senior_title (r ''Title'') \<and> has_last_name (r ''Name''))"

section \<open>Characters and text\<close>

lemma in_class_spec_keep: "in_class c = spec_keep c"
  by (cases c) (simp add: in_class_def spec_keep_def Let_def)

lemma space_code: "(c = CHR '' '') = (of_char c = (32::nat))"
  by (cases c) simp

lemma lower_char_eq_space: "(lower_char c = CHR '' '') = (c = CHR '' '')"
  by (auto simp add: space_code lower_char_def Let_def)

lemma lower_char_idem: "lower_char (lower_char c) = lower_char c"
  by (auto simp add: lower_char_def Let_def)

lemma in_class_lower_char: "in_class c \<Longrightarrow> in_class (lower_char c)"
  by (auto simp add: lower_char_def in_class_def Let_def)

lemma lower_idem: "lower (lower s) = lower s"
  by (simp add: lower_def lower_char_idem)

lemma lower_append: "lower (xs @ ys) = lower xs @ lower ys"
  by (simp add: lower_def)

lemma re_sub_not_in_class_filter: "re_sub_not_in_class s = filter in_class s"
  by (induction s) simp_all

lemma replace_space_filter: "replace_space s = filter (\<lambda>c. c \<noteq> CHR '' '') s"
  by (induction s) simp_all

section \<open>Domain inference\<close>

lemma domain_stem_filter:
  "domain_stem s = filter (\<lambda>c. c \<noteq> CHR '' '') (map lower_char (filter in_class s))"
  by (simp add: domain_stem_def re_sub_not_in_class_filter replace_space_filter lower_def)

lemma domain_stem_append: "domain_stem (xs @ ys) = domain_stem xs @ domain_stem ys"
  by (simp add: domain_stem_filter)

lemma domain_stem_chars:
  "c \<in> set (domain_stem s) \<Longrightarrow> in_class c \<and> c \<noteq> CHR '' '' \<and> lower_char c = c"
  by (auto simp add: domain_stem_filter in_class_lower_char lower_char_idem)

lemma domain_stem_idem: "domain_stem (domain_stem s) = domain_stem s"
proof -
  let ?g = "domain_stem s"
  have a: "filter in_class ?g = ?g"
    by (rule filter_True) (simp add: domain_stem_chars)
  have b: "map lower_char ?g = ?g"
    by (rule map_idI) (simp add: domain_stem_chars)
  have c: "filter (\<lambda>c. c \<noteq> CHR '' '') ?g = ?g"
    by (rule filter_True) (simp add: domain_stem_chars)
  have "domain_stem ?g = filter (\<lambda>c. c \<noteq> CHR '' '') (map lower_char (filter in_class ?g))"
    by (rule domain_stem_filter)
  then show ?thesis by (simp only: a b c)
qed

lemma domain_stem_dot_com: "domain_stem ''.com'' = ''com''"
  by code_simp

lemma lower_infer_domain: "lower (infer_domain c) = infer_domain c"
proof -
  have "map lower_char (domain_stem c) = domain_stem c"
    by (rule map_idI) (simp add: domain_stem_chars)
  moreover have "lower ''.com'' = ''.com''" by code_simp
  ultimately show ?thesis by (simp add: infer_domain_def lower_append) (simp add: lower_def)
qed

text \<open>
  C3. For every Company string, \<open>infer_domain\<close> returns the string obtained by
  deleting every character that is not a US-ASCII letter, digit or space, lowercasing,
  deleting all spaces and appending \<open>.com\<close>; the empty name gives \<open>.com\<close> and
  \<open>AT&T\<close> gives \<open>att.com\<close>.
\<close>

theorem infer_domain_contract:
  "infer_domain company = spec_infer_domain company \<and>
   infer_domain '''' = ''.com'' \<and>
   infer_domain ''AT&T'' = ''att.com''"
proof -
  have "filter in_class company = filter spec_keep company"
    by (rule filter_cong) (simp_all add: in_class_spec_keep)
  then have "infer_domain company = spec_infer_domain company"
    by (simp add: infer_domain_def spec_infer_domain_def domain_stem_filter lower_def)
  moreover have "infer_domain '''' = ''.com''" by code_simp
  moreover have "infer_domain ''AT&T'' = ''att.com''" by code_simp
  ultimately show ?thesis by simp
qed

text \<open>
  C4, as stated, fails: \<open>infer_domain\<close> is not idempotent. Applied to its own result
  \<open>att.com\<close> it deletes the dot and appends \<open>.com\<close> again.
\<close>

theorem infer_domain_not_idempotent_example:
  "infer_domain (infer_domain ''AT&T'') \<noteq> infer_domain ''AT&T''"
  by code_simp

text \<open>
  C4, amended. Domain inference is deterministic: equal Company strings yield equal
  Domains. It is not idempotent: for every Company string, a second application
  returns the first result with its dot deleted and \<open>.com\<close> appended again, which
  never equals the first result. What is idempotent is the normalisation of the name:
  inferring from the domain without its \<open>.com\<close> returns the same domain.
\<close>

theorem infer_domain_twice:
  "infer_domain (domain_stem c) = infer_domain c \<and>
   infer_domain (infer_domain c) = domain_stem c @ ''com.com'' \<and>
   infer_domain (infer_domain c) \<noteq> infer_domain c \<and>
   (c = c' \<longrightarrow> infer_domain c = infer_domain c')"
proof -
  have a: "infer_domain (domain_stem c) = infer_domain c"
    by (simp add: infer_domain_def domain_stem_idem)
  have b: "infer_domain (infer_domain c) = domain_stem c @ ''com.com''"
    by (simp add: infer_domain_def domain_stem_append domain_stem_idem domain_stem_dot_com)
  have "length (infer_domain (infer_domain c)) \<noteq> length (infer_domain c)"
    unfolding b by (simp add: infer_domain_def)
  then have c: "infer_domain (infer_domain c) \<noteq> infer_domain c" by auto
  from a b c show ?thesis by simp
qed

theorem infer_domain_twice_witness:
  "infer_domain (domain_stem ''AT&T'') = ''att.com'' \<and>
   infer_domain (infer_domain ''AT&T'') = ''attcom.com'' \<and>
   infer_domain ''AT&T'' = ''att.com''"
proof -
  have s: "domain_stem ''AT&T'' = ''att''" by code_simp
  have i: "infer_domain ''AT&T'' = ''att.com''" by code_simp
  from infer_domain_twice [of "''AT&T''" "''AT&T''"] show ?thesis
    by (simp add: s i)
qed

section \<open>The stages\<close>

lemma apply_rows_Inr:
  "apply_rows f xs = Inr ys \<Longrightarrow> list_all2 (\<lambda>x y. f x = Inr y) xs ys"
  by (induction xs arbitrary: ys) (auto split: sum.splits)


lemma mask_filter: "map fst (filter snd (zip xs (map g xs))) = filter g xs"
  by (induction xs) simp_all

lemma first_space_parts_iff:
  "first_space_parts t = Some (f, l) \<longleftrightarrow> t = f @ CHR '' '' # l \<and> CHR '' '' \<notin> set f"
proof
  assume a: "first_space_parts t = Some (f, l)"
  then have m: "CHR '' '' \<in> set t"
    and f: "f = takeWhile (\<lambda>c. c \<noteq> CHR '' '') t"
    and l: "l = tl (dropWhile (\<lambda>c. c \<noteq> CHR '' '') t)"
    by (auto simp add: first_space_parts_def split: if_splits)
  from m have "dropWhile (\<lambda>c. c \<noteq> CHR '' '') t \<noteq> []" by (simp add: dropWhile_eq_Nil_conv)
  moreover have "hd (dropWhile (\<lambda>c. c \<noteq> CHR '' '') t) = CHR '' ''"
    using hd_dropWhile [OF calculation] by simp
  ultimately have "dropWhile (\<lambda>c. c \<noteq> CHR '' '') t = CHR '' '' # l"
    unfolding l by (cases "dropWhile (\<lambda>c. c \<noteq> CHR '' '') t") auto
  then have "t = f @ CHR '' '' # l"
    unfolding f by (metis takeWhile_dropWhile_id)
  moreover have "CHR '' '' \<notin> set f" unfolding f by (auto dest: set_takeWhileD)
  ultimately show "t = f @ CHR '' '' # l \<and> CHR '' '' \<notin> set f" by simp
next
  assume a: "t = f @ CHR '' '' # l \<and> CHR '' '' \<notin> set f"
  then have n: "\<And>x. x \<in> set f \<Longrightarrow> x \<noteq> CHR '' ''" by auto
  have "takeWhile (\<lambda>c. c \<noteq> CHR '' '') (f @ CHR '' '' # l) = f"
    using n by (simp add: takeWhile_append2)
  moreover have "dropWhile (\<lambda>c. c \<noteq> CHR '' '') (f @ CHR '' '' # l) = CHR '' '' # l"
    using n by (simp add: dropWhile_append2)
  ultimately show "first_space_parts t = Some (f, l)"
    using a by (simp add: first_space_parts_def)
qed

lemma zip_maps: "zip xs (zip (map g xs) (map h xs)) = map (\<lambda>x. (x, g x, h x)) xs"
  by (induction xs) simp_all

lemma foldr_max_12:
  "(\<And>x. x \<in> set xs \<Longrightarrow> g x = 1 \<or> g x = (2::nat)) \<Longrightarrow>
   foldr max (map g xs) 0 = (if xs = [] then 0 else if \<exists>x\<in>set xs. g x = 2 then 2 else 1)"
proof (induction xs)
  case Nil
  then show ?case by simp
next
  case (Cons a xs)
  have "g a = 1 \<or> g a = 2" using Cons.prems by simp
  moreover have "foldr max (map g xs) 0 =
      (if xs = [] then 0 else if \<exists>x\<in>set xs. g x = 2 then 2 else 1)"
    using Cons by simp
  ultimately show ?case by auto
qed

lemma name_cells_cases:
  "(split_row r = None \<and> length (name_cells r) = 1) \<or>
   (\<exists>r'. split_row r = Some r' \<and> name_cells r = [FirstName r', LastName r'] \<and>
         LastName r' \<noteq> None)"
  by (auto simp add: name_cells_def split_row_def cons_row_def str_split_def str_strip_def
      split_space1_def first_space_parts_def split: option.splits)

lemma name_cells_length: "length (name_cells r) = 1 \<or> length (name_cells r) = 2"
  using name_cells_cases [of r] by auto

lemma name_cells_2: "length (name_cells r) = 2 \<longleftrightarrow> split_row r \<noteq> None"
  using name_cells_cases [of r] by auto

lemma split_names_unfold:
  "split_names df =
     (let w = foldr max (map (\<lambda>r. length (name_cells r)) df) 0 in
      if w < 1 then Inl (KeyError (Position 0))
      else if w < 2 then Inl (KeyError (Position 1))
      else Inr (filter (\<lambda>r. LastName r \<noteq> None)
             (map (\<lambda>r. \<lparr>idx = idx r, Name = Name r, Title = Title r, Company = Company r,
                     FirstName = (name_cells r @ replicate (w - length (name_cells r)) None) ! 0,
                     LastName = (name_cells r @ replicate (w - length (name_cells r)) None) ! 1\<rparr>)
                  df)))"
  by (simp add: split_names_def expand_def getitem_def Let_def name_cells_def
      zip_maps comp_def)

lemma split_names_width:
  "foldr max (map (\<lambda>r. length (name_cells r)) df) 0 =
     (if df = [] then 0 else if \<exists>r\<in>set df. split_row r \<noteq> None then 2 else 1)"
  using foldr_max_12 [of df "\<lambda>r. length (name_cells r)"] name_cells_length
  by (simp add: name_cells_2)

lemma padded_row:
  "filter (\<lambda>r. LastName r \<noteq> None)
     (map (\<lambda>r. \<lparr>idx = idx r, Name = Name r, Title = Title r, Company = Company r,
             FirstName = (name_cells r @ replicate (2 - length (name_cells r)) None) ! 0,
             LastName = (name_cells r @ replicate (2 - length (name_cells r)) None) ! 1\<rparr>)
          df) = List.map_filter split_row df"
proof (induction df)
  case Nil
  then show ?case by (simp add: List.map_filter_simps)
next
  case (Cons r df)
  from name_cells_cases [of r] show ?case
  proof
    assume a: "split_row r = None \<and> length (name_cells r) = 1"
    then obtain x where "name_cells r = [x]" by (cases "name_cells r") auto
    with a Cons show ?thesis by (simp add: List.map_filter_simps)
  next
    assume "\<exists>r'. split_row r = Some r' \<and> name_cells r = [FirstName r', LastName r'] \<and>
         LastName r' \<noteq> None"
    then obtain r' where s: "split_row r = Some r'"
      and n: "name_cells r = [FirstName r', LastName r']" and l: "LastName r' \<noteq> None"
      by blast
    from s have "r' = \<lparr>idx = idx r, Name = Name r, Title = Title r, Company = Company r,
        FirstName = FirstName r', LastName = LastName r'\<rparr>"
      by (auto simp add: split_row_def split: option.splits)
    with s n l Cons show ?thesis by (simp add: List.map_filter_simps)
  qed
qed

lemma split_names_some:
  assumes "\<exists>r\<in>set df. split_row r \<noteq> None"
  shows "split_names df = Inr (List.map_filter split_row df)"
proof -
  from assms have w: "foldr max (map (\<lambda>r. length (name_cells r)) df) 0 = 2"
    by (auto simp add: split_names_width)
  have "split_names df = Inr (filter (\<lambda>r. LastName r \<noteq> None)
     (map (\<lambda>r. \<lparr>idx = idx r, Name = Name r, Title = Title r, Company = Company r,
             FirstName = (name_cells r @ replicate (2 - length (name_cells r)) None) ! 0,
             LastName = (name_cells r @ replicate (2 - length (name_cells r)) None) ! 1\<rparr>)
          df))"
    using split_names_unfold [of df] w by (simp add: Let_def)
  also have "\<dots> = Inr (List.map_filter split_row df)"
    by (simp only: padded_row)
  finally show ?thesis .
qed

lemma split_names_none:
  assumes "\<forall>r\<in>set df. split_row r = None"
  shows "split_names df = Inl (KeyError (Position (if df = [] then 0 else 1)))"
proof -
  from assms have "foldr max (map (\<lambda>r. length (name_cells r)) df) 0 = (if df = [] then 0 else 1)"
    by (auto simp add: split_names_width)
  then show ?thesis
    using split_names_unfold [of df] by (simp add: Let_def)
qed

lemma split_names_Inr:
  "split_names df = Inr out \<longleftrightarrow>
     (\<exists>r\<in>set df. split_row r \<noteq> None) \<and> out = List.map_filter split_row df"
proof (cases "\<exists>r\<in>set df. split_row r \<noteq> None")
  case True
  then show ?thesis using split_names_some [OF True] by auto
next
  case False
  then have "\<forall>r\<in>set df. split_row r = None" by simp
  from split_names_none [OF this] False show ?thesis by simp
qed


lemma apply_rows_is_senior:
  "apply_rows is_senior (map (\<lambda>r. str_lower (Title r)) df) =
     (if \<forall>r\<in>set df. Title r \<noteq> None
      then Inr (map (\<lambda>r. senior_title (Title r)) df) else Inl TypeError)"
  by (induction df)
     (auto simp add: is_senior_def str_lower_def senior_title_def split: option.splits)

lemma filter_senior_execs_eq:
  "filter_senior_execs df =
     (if \<forall>r\<in>set df. Title r \<noteq> None
      then if df = [] then Inl (KeyError (Labels [''is_senior'']))
           else Inr (filter (\<lambda>r. senior_title (Title r)) df)
      else Inl TypeError)"
  by (simp add: filter_senior_execs_def apply_rows_is_senior mask_filter)

lemma senior_title_iff:
  "senior_title c \<longleftrightarrow>
     (\<exists>t k. c = Some t \<and>
        k \<in> {''chief'', ''ceo'', ''cmo'', ''cto'', ''cfo'', ''coo'',
             ''president'', ''founder'', ''co-founder'', ''evp'', ''svp''} \<and>
        sublist k (lower t))"
  by (cases c) (auto simp add: senior_title_def senior_keywords_def list_ex_iff)

text \<open>
  On a frame with at least one row and all titles text, \<open>filter_senior_execs\<close> retains
  exactly the rows whose title, lowercased, contains one of the eleven keywords as a
  substring, in their order; a row titled \<open>Vice President of Engineering\<close> is retained
  and a row titled \<open>Software Engineer\<close> is excluded.
\<close>

lemma filter_senior_execs_nonempty:
  "(df \<noteq> [] \<and> (\<forall>r\<in>set df. Title r \<noteq> None) \<longrightarrow>
      filter_senior_execs df =
        Inr (filter (\<lambda>r. \<exists>t k. Title r = Some t \<and>
               k \<in> {''chief'', ''ceo'', ''cmo'', ''cto'', ''cfo'', ''coo'',
                    ''president'', ''founder'', ''co-founder'', ''evp'', ''svp''} \<and>
               sublist k (lower t)) df)) \<and>
   filter_senior_execs [r\<lparr>Title := Some ''Vice President of Engineering''\<rparr>] =
     Inr [r\<lparr>Title := Some ''Vice President of Engineering''\<rparr>] \<and>
   filter_senior_execs [r\<lparr>Title := Some ''Software Engineer''\<rparr>] = Inr []"
proof -
  have a: "senior_title (Some ''Vice President of Engineering'')" by code_simp
  have b: "\<not> senior_title (Some ''Software Engineer'')" by code_simp
  show ?thesis
    by (simp add: filter_senior_execs_eq a b) (simp add: senior_title_iff)
qed

text \<open>
  C1. The Executive Filter is to retain exactly the records whose title, lowercased,
  contains one of the keywords, for every record set. On the record set with no
  records that is the empty set, but \<open>filter_senior_execs\<close> raises \<open>KeyError\<close> there, and
  so does a run on a sheet that has the three columns and no rows.
\<close>

theorem filter_senior_execs_empty_frame:
  "filter_senior_execs ([] :: row list) = Inl (KeyError (Labels [''is_senior''])) \<and>
   fst (main \<lparr>input_file = Some \<lparr>columns = [''Name'', ''Title'', ''Company''], rows = []\<rparr>,
              output_dir = True, can_mkdir = True, can_write = True, output_file = None,
              stdout_encodes = True, stdout = []\<rparr>) = Some (KeyError (Labels [''is_senior'']))"
  by code_simp

text \<open>
  C2, as stated, fails: the split is at the first space character, not at the first
  run of whitespace. For \<open>A  B\<close> (two spaces) the last name keeps the second space,
  and for a name whose first whitespace is a tab the first name is not the first
  whitespace-delimited token.
\<close>

theorem split_names_whitespace_run_example:
  "split_names [\<lparr>idx = 0, Name = Some ''A  B'', Title = Some ''CEO'', Company = Some ''X''\<rparr>] =
     Inr [\<lparr>idx = 0, Name = Some ''A  B'', Title = Some ''CEO'', Company = Some ''X'',
           FirstName = Some ''A'', LastName = Some '' B''\<rparr>] \<and>
   spec_split_name ''A  B'' = Some (''A'', ''B'') \<and>
   split_names [\<lparr>idx = 0, Name = Some [CHR ''A'', CHR 0x09, CHR ''B'', CHR '' '', CHR ''C''],
                 Title = Some ''CEO'', Company = Some ''X''\<rparr>] =
     Inr [\<lparr>idx = 0, Name = Some [CHR ''A'', CHR 0x09, CHR ''B'', CHR '' '', CHR ''C''],
           Title = Some ''CEO'', Company = Some ''X'',
           FirstName = Some [CHR ''A'', CHR 0x09, CHR ''B''], LastName = Some ''C''\<rparr>] \<and>
   spec_split_name [CHR ''A'', CHR 0x09, CHR ''B'', CHR '' '', CHR ''C''] = Some (''A'', ''B C'') \<and>
   map_option snd (spec_split_name ''A  B'') \<noteq> Some '' B'' \<and>
   map_option fst (spec_split_name [CHR ''A'', CHR 0x09, CHR ''B'', CHR '' '', CHR ''C'']) \<noteq>
     Some [CHR ''A'', CHR 0x09, CHR ''B'']"
  by code_simp

lemma split_row_iff:
  "split_row r = Some r' \<longleftrightarrow>
     (\<exists>n f l. Name r = Some n \<and> strip n = f @ CHR '' '' # l \<and> CHR '' '' \<notin> set f \<and>
        r' = \<lparr>idx = idx r, Name = Name r, Title = Title r, Company = Company r,
               FirstName = Some f, LastName = Some l\<rparr>)"
  (is "?L \<longleftrightarrow> ?R")
proof
  assume ?L
  then obtain n f l where n: "Name r = Some n"
    and p: "first_space_parts (strip n) = Some (f, l)"
    and r': "r' = \<lparr>idx = idx r, Name = Name r, Title = Title r, Company = Company r,
               FirstName = Some f, LastName = Some l\<rparr>"
    by (auto simp add: split_row_def split: option.splits)
  from p have "strip n = f @ CHR '' '' # l \<and> CHR '' '' \<notin> set f"
    using first_space_parts_iff [of "strip n" f l] by blast
  with n r' show ?R by blast
next
  assume ?R
  then obtain n f l where n: "Name r = Some n"
    and e: "strip n = f @ CHR '' '' # l \<and> CHR '' '' \<notin> set f"
    and r': "r' = \<lparr>idx = idx r, Name = Name r, Title = Title r, Company = Company r,
               FirstName = Some f, LastName = Some l\<rparr>"
    by blast
  from e have "first_space_parts (strip n) = Some (f, l)"
    using first_space_parts_iff [of "strip n" f l] by blast
  with n r' show ?L by (simp add: split_row_def)
qed

text \<open>
  C2, amended. When \<open>split_names\<close> returns, it has kept, in order, the rows whose
  Name, with leading and trailing whitespace trimmed, contains a space character, and
  dropped the others. For a kept row FirstName is the trimmed Name before its first
  space character and LastName is everything after that character, unchanged, so
  \<open>A B C\<close> gives \<open>A\<close> and \<open>B C\<close>.
\<close>

theorem split_names_first_space:
  assumes "split_names df = Inr out"
  shows "out = List.map_filter split_row df \<and>
         (\<forall>r r'. split_row r = Some r' \<longleftrightarrow>
            (\<exists>n f l. Name r = Some n \<and> strip n = f @ CHR '' '' # l \<and> CHR '' '' \<notin> set f \<and>
               r' = \<lparr>idx = idx r, Name = Name r, Title = Title r, Company = Company r,
                      FirstName = Some f, LastName = Some l\<rparr>))"
  using assms by (simp add: split_names_Inr split_row_iff)

theorem split_names_first_space_witness:
  "split_names
     [\<lparr>idx = 0, Name = Some '' A B C '', Title = Some ''CEO'', Company = Some ''X''\<rparr>,
      \<lparr>idx = 1, Name = Some ''Cher'', Title = Some ''CEO'', Company = Some ''X''\<rparr>] =
   Inr [\<lparr>idx = 0, Name = Some '' A B C '', Title = Some ''CEO'', Company = Some ''X'',
         FirstName = Some ''A'', LastName = Some ''B C''\<rparr>] \<and>
   List.map_filter split_row
     [\<lparr>idx = 0, Name = Some '' A B C '', Title = Some ''CEO'', Company = Some ''X''\<rparr>,
      \<lparr>idx = 1, Name = Some ''Cher'', Title = Some ''CEO'', Company = Some ''X''\<rparr>] =
   [\<lparr>idx = 0, Name = Some '' A B C '', Title = Some ''CEO'', Company = Some ''X'',
         FirstName = Some ''A'', LastName = Some ''B C''\<rparr>]"
proof -
  let ?df = "[\<lparr>idx = 0, Name = Some '' A B C '', Title = Some ''CEO'', Company = Some ''X''\<rparr>,
      \<lparr>idx = 1, Name = Some ''Cher'', Title = Some ''CEO'', Company = Some ''X''\<rparr>]"
  let ?out = "[\<lparr>idx = 0, Name = Some '' A B C '', Title = Some ''CEO'', Company = Some ''X'',
         FirstName = Some ''A'', LastName = Some ''B C''\<rparr>]"
  have h: "split_names ?df = Inr ?out" by code_simp
  from split_names_first_space [OF h] h show ?thesis by simp
qed

section \<open>The pipeline\<close>

lemma select_columns_Inr:
  "select_columns f = Inr d \<Longrightarrow>
     d = map (\<lambda>p. \<lparr>idx = fst p, Name = snd p ''Name'', Title = snd p ''Title'',
                    Company = snd p ''Company''\<rparr>) (enumerate 0 (rows f))"
  by (auto simp add: select_columns_def Let_def case_prod_unfold split: if_splits)

lemma load_data_Inr:
  assumes "load_data file = Inr d1"
  shows "\<exists>f. file = Some f \<and> set expected_columns \<subseteq> set (columns f) \<and>
           map base d1 = map raw_base (filter (\<lambda>p. complete (snd p)) (enumerate 0 (rows f)))"
proof -
  from assms obtain f where f: "file = Some f"
    by (cases "file") (auto simp add: load_data_def read_excel_def)
  from assms f obtain d where d: "select_columns f = Inr d" and d1: "d1 = dropna d"
    by (auto simp add: load_data_def read_excel_def split: sum.splits)
  from d have c: "set expected_columns \<subseteq> set (columns f)"
    by (auto simp add: select_columns_def Let_def filter_empty_conv split: if_splits)
  have "map base d1 = map raw_base (filter (\<lambda>p. complete (snd p)) (enumerate 0 (rows f)))"
    unfolding d1 select_columns_Inr [OF d] dropna_def
    by (simp add: filter_map comp_def base_def raw_base_def complete_def)
  with f c show ?thesis by blast
qed


lemma filter_senior_execs_base:
  "filter_senior_execs d = Inr d' \<Longrightarrow>
     map base d' = filter (\<lambda>b. senior_title (fst (snd (snd b)))) (map base d)"
  by (auto simp add: filter_senior_execs_eq filter_map comp_def base_def split: if_splits)

lemma split_row_base:
  "split_row r = Some r' \<Longrightarrow> base r' = base r \<and> has_last_name (Name r)"
  by (auto simp add: split_row_def base_def has_last_name_def first_space_parts_def
      split: option.splits if_splits)

lemma split_row_None: "split_row r = None \<Longrightarrow> \<not> has_last_name (Name r)"
  by (auto simp add: split_row_def has_last_name_def first_space_parts_def
      split: option.splits if_splits)

lemma map_filter_split_row_base:
  "map base (List.map_filter split_row d) = filter (\<lambda>b. has_last_name (fst (snd b))) (map base d)"
proof (induction d)
  case Nil
  then show ?case by simp
next
  case (Cons r d)
  show ?case
  proof (cases "split_row r")
    case None
    from split_row_None [OF None] have "\<not> has_last_name (fst (snd (base r)))"
      by (simp add: base_def)
    with None Cons show ?thesis by simp
  next
    case (Some r')
    from split_row_base [OF Some] have "base r' = base r" "has_last_name (fst (snd (base r)))"
      by (simp_all add: base_def)
    with Some Cons show ?thesis by simp
  qed
qed

lemma split_names_base:
  "split_names d = Inr d' \<Longrightarrow>
     map base d' = filter (\<lambda>b. has_last_name (fst (snd b))) (map base d)"
  by (simp add: split_names_Inr map_filter_split_row_base)

lemma add_domains_Inr:
  "add_domains d = Inr d' \<Longrightarrow>
     list_all2 (\<lambda>r r'. \<exists>c. Company r = Some c \<and>
        r' = \<lparr>idx = idx r, Name = Name r, Title = Title r, Company = Company r,
              FirstName = FirstName r, LastName = LastName r,
              Domain_col = Some (infer_domain c)\<rparr>) d d'"
  unfolding add_domains_def
  by (drule apply_rows_Inr) (auto elim!: list_all2_mono split: option.splits)

lemma add_domains_base: "add_domains d = Inr d' \<Longrightarrow> map base d' = map base d"
proof -
  assume "add_domains d = Inr d'"
  from add_domains_Inr [OF this] have "list_all2 (\<lambda>r r'. base r' = base r) d d'"
    by (rule list_all2_mono) (auto simp add: base_def)
  then show ?thesis
    by (induction d d' rule: list_all2_induct) simp_all
qed


lemma generate_emails_base: "map base (generate_emails d) = map base d"
  by (simp add: generate_emails_def base_def comp_def)

lemma survives_raw_base:
  "(complete (snd p) \<and> senior_title (fst (snd (snd (raw_base p)))) \<and>
    has_last_name (fst (snd (raw_base p)))) = survives (snd p)"
  by (simp add: survives_def raw_base_def)

lemma stages_Inr:
  assumes "stages file = Inr df"
  shows "\<exists>f. file = Some f \<and>
           map base df = map raw_base (filter (\<lambda>p. survives (snd p)) (enumerate 0 (rows f)))"
proof -
  from assms obtain d1 d2 d3 d4 where 1: "load_data file = Inr d1"
    and 2: "filter_senior_execs d1 = Inr d2" and 3: "split_names d2 = Inr d3"
    and 4: "add_domains d3 = Inr d4" and 5: "df = generate_emails d4"
    by (auto simp add: stages_def split: sum.splits)
  from load_data_Inr [OF 1] obtain f where f: "file = Some f"
    and b1: "map base d1 = map raw_base (filter (\<lambda>p. complete (snd p)) (enumerate 0 (rows f)))"
    by blast
  have "map base df = map base d3"
    unfolding 5 by (simp add: generate_emails_base add_domains_base [OF 4])
  also have "\<dots> = filter (\<lambda>b. has_last_name (fst (snd b)))
                    (filter (\<lambda>b. senior_title (fst (snd (snd b)))) (map base d1))"
    by (simp only: split_names_base [OF 3] filter_senior_execs_base [OF 2])
  also have "\<dots> = map raw_base (filter (\<lambda>p. survives (snd p)) (enumerate 0 (rows f)))"
    unfolding b1 by (simp add: filter_map comp_def survives_raw_base [symmetric] conj_ac)
  finally show ?thesis using f by blast
qed

lemma lower_dot: "lower ''.'' = ''.''"
  by code_simp

lemma lower_at: "lower ''@'' = ''@''"
  by code_simp

lemma list_all2_right: "list_all2 (\<lambda>x y. P y) xs ys \<Longrightarrow> y \<in> set ys \<Longrightarrow> P y"
  by (induction xs ys rule: list_all2_induct) auto

lemma list_all2_right_ex: "list_all2 P xs ys \<Longrightarrow> y \<in> set ys \<Longrightarrow> \<exists>x\<in>set xs. P x y"
  by (induction xs ys rule: list_all2_induct) auto

lemma add_domains_lowercase:
  assumes "add_domains d0 = Inr df" and "r \<in> set df"
  shows "\<exists>d. Domain_col r = Some d \<and> lower d = d"
proof -
  from add_domains_Inr [OF assms(1)]
  have "list_all2 (\<lambda>r0 r. \<exists>d. Domain_col r = Some d \<and> lower d = d) d0 df"
    by (rule list_all2_mono) (auto simp add: lower_infer_domain)
  from list_all2_right [OF this assms(2)] show ?thesis .
qed

lemma emails_lowercase:
  assumes "lower d = d"
  shows "lower (lower f @ ''.'' @ lower l @ ''@'' @ d) = lower f @ ''.'' @ lower l @ ''@'' @ d \<and>
         lower (lower f @ ''@'' @ d) = lower f @ ''@'' @ d"
  using assms by (simp only: lower_append lower_idem lower_dot lower_at)

lemma generate_emails_row:
  assumes "r \<in> set (generate_emails df)"
  shows "\<exists>r0\<in>set df. FirstName r = FirstName r0 \<and> LastName r = LastName r0 \<and>
           Domain_col r = Domain_col r0 \<and>
           Email_1 r = str_add (str_add (str_add (str_add (str_lower (FirstName r0)) (Some ''.''))
                                    (str_lower (LastName r0))) (Some ''@'')) (Domain_col r0) \<and>
           Email_2 r = str_add (str_add (str_lower (FirstName r0)) (Some ''@'')) (Domain_col r0)"
  using assms by (auto simp add: generate_emails_def)

lemma split_names_names:
  assumes "split_names d2 = Inr d3" and "r \<in> set d3"
  shows "\<exists>f l. FirstName r = Some f \<and> LastName r = Some l"
proof -
  from assms have "r \<in> set (List.map_filter split_row d2)" by (simp add: split_names_Inr)
  then obtain r0 where "split_row r0 = Some r"
    by (auto simp add: List.map_filter_def)
  then show ?thesis by (auto simp add: split_row_iff)
qed

lemma add_domains_names:
  assumes "add_domains d3 = Inr d4" and "r \<in> set d4"
  shows "\<exists>r0\<in>set d3. FirstName r = FirstName r0 \<and> LastName r = LastName r0"
proof -
  from list_all2_right_ex [OF add_domains_Inr [OF assms(1)] assms(2)]
  show ?thesis by auto
qed

lemma stages_emails:
  assumes "stages file = Inr out" and "r \<in> set out"
  shows "\<exists>f l d. FirstName r = Some f \<and> LastName r = Some l \<and> Domain_col r = Some d \<and>
           lower d = d \<and>
           Email_1 r = Some (lower f @ ''.'' @ lower l @ ''@'' @ d) \<and>
           Email_2 r = Some (lower f @ ''@'' @ d)"
proof -
  from assms(1) obtain d2 d3 d4 where 3: "split_names d2 = Inr d3"
    and 4: "add_domains d3 = Inr d4" and 5: "out = generate_emails d4"
    by (auto simp add: stages_def split: sum.splits)
  from assms(2) 5 generate_emails_row obtain r4 where r4: "r4 \<in> set d4"
    and e: "FirstName r = FirstName r4" "LastName r = LastName r4"
      "Domain_col r = Domain_col r4"
      "Email_1 r = str_add (str_add (str_add (str_add (str_lower (FirstName r4)) (Some ''.''))
                                    (str_lower (LastName r4))) (Some ''@'')) (Domain_col r4)"
      "Email_2 r = str_add (str_add (str_lower (FirstName r4)) (Some ''@'')) (Domain_col r4)"
    by blast
  from add_domains_lowercase [OF 4 r4] obtain d where d: "Domain_col r4 = Some d" "lower d = d"
    by blast
  from add_domains_names [OF 4 r4] obtain r3 where r3: "r3 \<in> set d3"
    and n: "FirstName r4 = FirstName r3" "LastName r4 = LastName r3"
    by blast
  from split_names_names [OF 3 r3] n obtain f l where fl: "FirstName r4 = Some f" "LastName r4 = Some l"
    by auto
  from e d fl have "FirstName r = Some f \<and> LastName r = Some l \<and> Domain_col r = Some d \<and>
           lower d = d \<and>
           Email_1 r = Some (lower f @ ''.'' @ lower l @ ''@'' @ d) \<and>
           Email_2 r = Some (lower f @ ''@'' @ d)"
    by (simp add: str_add_def str_lower_def)
  then show ?thesis by blast
qed

text \<open>
  C5. For every record with FirstName, LastName and Domain, \<open>generate_emails\<close> produces
  exactly Email_1 = lowercase(FirstName) + "." + lowercase(LastName) + "@" + Domain and
  Email_2 = lowercase(FirstName) + "@" + Domain. The only call of \<open>generate_emails\<close>
  follows \<open>add_domains\<close>: every record that reaches it in a run has the three fields,
  its Domain is the lowercase one \<open>add_domains\<close> wrote, and both emails are entirely
  lowercase.
\<close>

theorem generate_emails_contract:
  "length (generate_emails df) = length df \<and>
   (\<forall>i<length df. \<forall>f l d.
      FirstName (df ! i) = Some f \<and> LastName (df ! i) = Some l \<and> Domain_col (df ! i) = Some d \<longrightarrow>
      Email_1 (generate_emails df ! i) = Some (lower f @ ''.'' @ lower l @ ''@'' @ d) \<and>
      Email_2 (generate_emails df ! i) = Some (lower f @ ''@'' @ d)) \<and>
   (\<forall>d0. add_domains d0 = Inr df \<longrightarrow>
      (\<forall>i<length df. \<forall>f l. FirstName (df ! i) = Some f \<and> LastName (df ! i) = Some l \<longrightarrow>
         (\<exists>d. Domain_col (df ! i) = Some d \<and>
              Email_1 (generate_emails df ! i) = Some (lower f @ ''.'' @ lower l @ ''@'' @ d) \<and>
              Email_2 (generate_emails df ! i) = Some (lower f @ ''@'' @ d) \<and>
              lower (lower f @ ''.'' @ lower l @ ''@'' @ d) = lower f @ ''.'' @ lower l @ ''@'' @ d \<and>
              lower (lower f @ ''@'' @ d) = lower f @ ''@'' @ d))) \<and>
   (\<forall>file out. stages file = Inr out \<longrightarrow>
      (\<forall>r\<in>set out. \<exists>f l d.
         FirstName r = Some f \<and> LastName r = Some l \<and> Domain_col r = Some d \<and>
         Email_1 r = Some (lower f @ ''.'' @ lower l @ ''@'' @ d) \<and>
         Email_2 r = Some (lower f @ ''@'' @ d) \<and>
         lower (lower f @ ''.'' @ lower l @ ''@'' @ d) = lower f @ ''.'' @ lower l @ ''@'' @ d \<and>
         lower (lower f @ ''@'' @ d) = lower f @ ''@'' @ d))"
proof -
  have a: "length (generate_emails df) = length df"
    by (simp add: generate_emails_def)
  have b: "Email_1 (generate_emails df ! i) = Some (lower f @ ''.'' @ lower l @ ''@'' @ d) \<and>
      Email_2 (generate_emails df ! i) = Some (lower f @ ''@'' @ d)"
    if "i < length df" "FirstName (df ! i) = Some f" "LastName (df ! i) = Some l"
      "Domain_col (df ! i) = Some d" for i f l d
    using that by (simp add: generate_emails_def str_add_def str_lower_def)
  have c: "\<exists>d. Domain_col (df ! i) = Some d \<and>
              Email_1 (generate_emails df ! i) = Some (lower f @ ''.'' @ lower l @ ''@'' @ d) \<and>
              Email_2 (generate_emails df ! i) = Some (lower f @ ''@'' @ d) \<and>
              lower (lower f @ ''.'' @ lower l @ ''@'' @ d) = lower f @ ''.'' @ lower l @ ''@'' @ d \<and>
              lower (lower f @ ''@'' @ d) = lower f @ ''@'' @ d"
    if "add_domains d0 = Inr df" "i < length df" "FirstName (df ! i) = Some f"
      "LastName (df ! i) = Some l" for d0 i f l
  proof -
    from that(2) have "df ! i \<in> set df" by simp
    from add_domains_lowercase [OF that(1) this] obtain d
      where d: "Domain_col (df ! i) = Some d" "lower d = d" by blast
    from b [OF that(2,3,4) d(1)] emails_lowercase [OF d(2)] d(1) show ?thesis by blast
  qed
  have e: "\<exists>f l d.
         FirstName r = Some f \<and> LastName r = Some l \<and> Domain_col r = Some d \<and>
         Email_1 r = Some (lower f @ ''.'' @ lower l @ ''@'' @ d) \<and>
         Email_2 r = Some (lower f @ ''@'' @ d) \<and>
         lower (lower f @ ''.'' @ lower l @ ''@'' @ d) = lower f @ ''.'' @ lower l @ ''@'' @ d \<and>
         lower (lower f @ ''@'' @ d) = lower f @ ''@'' @ d"
    if "stages fl = Inr out" "r \<in> set out" for fl out r
  proof -
    from stages_emails [OF that] obtain f l d where
      s: "FirstName r = Some f" "LastName r = Some l" "Domain_col r = Some d" "lower d = d"
        "Email_1 r = Some (lower f @ ''.'' @ lower l @ ''@'' @ d)"
        "Email_2 r = Some (lower f @ ''@'' @ d)"
      by blast
    from s emails_lowercase [OF s(4)] show ?thesis by blast
  qed
  from a b c e show ?thesis by blast
qed

theorem generate_emails_contract_witness:
  "stages (Some \<lparr>columns = [''Name'', ''Title'', ''Company''],
                  rows = [[''Name'' \<mapsto> ''Jane Doe'', ''Title'' \<mapsto> ''Chief Marketing Officer'',
                           ''Company'' \<mapsto> ''World Surf League'']]\<rparr>) =
     Inr [\<lparr>idx = 0, Name = Some ''Jane Doe'', Title = Some ''Chief Marketing Officer'',
           Company = Some ''World Surf League'', FirstName = Some ''Jane'',
           LastName = Some ''Doe'', Domain_col = Some ''worldsurfleague.com'',
           Email_1 = Some ''jane.doe@worldsurfleague.com'',
           Email_2 = Some ''jane@worldsurfleague.com''\<rparr>] \<and>
   lower ''jane.doe@worldsurfleague.com'' = ''jane.doe@worldsurfleague.com'' \<and>
   lower ''jane@worldsurfleague.com'' = ''jane@worldsurfleague.com''"
proof -
  let ?f = "\<lparr>columns = [''Name'', ''Title'', ''Company''],
                  rows = [[''Name'' \<mapsto> ''Jane Doe'', ''Title'' \<mapsto> ''Chief Marketing Officer'',
                           ''Company'' \<mapsto> ''World Surf League'']]\<rparr>"
  let ?r = "\<lparr>idx = 0, Name = Some ''Jane Doe'', Title = Some ''Chief Marketing Officer'',
           Company = Some ''World Surf League'', FirstName = Some ''Jane'',
           LastName = Some ''Doe'', Domain_col = Some ''worldsurfleague.com'',
           Email_1 = Some ''jane.doe@worldsurfleague.com'',
           Email_2 = Some ''jane@worldsurfleague.com''\<rparr>"
  have h: "stages (Some ?f) = Inr [?r]" by code_simp
  have g: "lower e1 = e1 \<and> lower e2 = e2"
    if "stages fl = Inr out" "r \<in> set out" "Email_1 r = Some e1" "Email_2 r = Some e2"
    for fl out r e1 e2
  proof -
    from generate_emails_contract [of "[]"] that(1,2) obtain f l d where
      "Email_1 r = Some (lower f @ ''.'' @ lower l @ ''@'' @ d)"
      "Email_2 r = Some (lower f @ ''@'' @ d)"
      "lower (lower f @ ''.'' @ lower l @ ''@'' @ d) = lower f @ ''.'' @ lower l @ ''@'' @ d"
      "lower (lower f @ ''@'' @ d) = lower f @ ''@'' @ d"
      by blast
    with that(3,4) show ?thesis by simp
  qed
  have m: "?r \<in> set [?r]" by simp
  have e1: "Email_1 ?r = Some ''jane.doe@worldsurfleague.com''" by simp
  have e2: "Email_2 ?r = Some ''jane@worldsurfleague.com''" by simp
  from g [OF h m e1 e2]
  have a: "lower ''jane.doe@worldsurfleague.com'' = ''jane.doe@worldsurfleague.com''"
    and b: "lower ''jane@worldsurfleague.com'' = ''jane@worldsurfleague.com''"
    by (rule conjunct1, rule conjunct2)
  from h a b show ?thesis by (intro conjI)
qed




lemma export_fst:
  "fst (export df w) =
     (if \<not> (output_dir w \<or> can_mkdir w) then Some OSError
      else if \<not> can_write w then Some OSError
      else if \<not> stdout_encodes w then Some UnicodeEncodeError
      else None)"
  by (simp add: export_def mkdir_def to_csv_def print_def Let_def)

lemma export_output_file:
  "output_file (snd (export df w)) =
     (if (output_dir w \<or> can_mkdir w) \<and> can_write w
      then Some (csv_of (take MAX_EXECUTIVES (map project df)))
      else output_file w)"
  by (simp add: export_def mkdir_def to_csv_def print_def Let_def)


lemma main_fst_None: "fst (main w) = None \<longleftrightarrow>
    (\<exists>df. stages (input_file w) = Inr df \<and> fst (export df w) = None)"
  by (simp add: main_def split: sum.splits)

lemma main_output_file:
  "output_file (snd (main w)) =
     (case stages (input_file w) of
        Inl e \<Rightarrow> output_file w
      | Inr df \<Rightarrow> output_file (snd (export df w)))"
  by (simp add: main_def split: sum.splits)




lemma loaded_row:
  assumes "map base d1 = map raw_base (filter (\<lambda>p. complete (snd p)) (enumerate 0 rs))"
    and "set (map base d) \<subseteq> set (map base d1)"
    and "r \<in> set d"
  shows "idx r < length rs \<and> complete (rs ! idx r) \<and> Name r = (rs ! idx r) ''Name'' \<and>
         Title r = (rs ! idx r) ''Title'' \<and> Company r = (rs ! idx r) ''Company''"
proof -
  from assms(2,3) have "base r \<in> set (map base d1)" by auto
  with assms(1) obtain p where p: "p \<in> set (enumerate 0 rs)" "complete (snd p)"
    and b: "base r = raw_base p"
    by auto
  from p(1) have "fst p < length rs" "rs ! fst p = snd p"
    by (simp_all add: in_set_enumerate_eq)
  with p(2) b show ?thesis by (simp add: base_def raw_base_def)
qed

lemma absent_row:
  assumes "map base d1 = map raw_base (filter (\<lambda>p. complete (snd p)) (enumerate 0 rs))"
    and "set (map base d) \<subseteq> set (map base d1)"
    and "\<not> complete (rs ! i)"
  shows "i \<notin> idx ` set d"
proof
  assume "i \<in> idx ` set d"
  then obtain r where "r \<in> set d" "idx r = i" by auto
  with loaded_row [OF assms(1,2)] assms(3) show False by auto
qed

lemma filter_senior_execs_sub:
  "filter_senior_execs d = Inr d' \<Longrightarrow> set (map base d') \<subseteq> set (map base d)"
  by (drule filter_senior_execs_base) simp

lemma split_names_sub:
  "split_names d = Inr d' \<Longrightarrow> set (map base d') \<subseteq> set (map base d)"
  by (drule split_names_base) simp

lemma project_fst: "fst ` set (take n (map project df)) \<subseteq> idx ` set df"
proof -
  have "set (take n (map project df)) \<subseteq> set (map project df)" by (rule set_take_subset)
  then show ?thesis by (auto simp add: project_def)
qed

lemma idx_image: "idx ` set d = fst ` set (map base d)"
  by (force simp add: base_def)

text \<open>
  C7. When \<open>load_data\<close> returns, the rows it retains are the input rows in which
  none of Name, Title, Company is missing (\<open>NaN\<close>, which is what the frame holds for a
  missing or empty spreadsheet cell), in input order and with those cells unchanged, so
  every retained row has all three. An input row with one of them missing is dropped:
  no row with its index is in the frame \<open>load_data\<close> returns, nor in the frame any
  later stage returns, nor among the rows selected for output.
\<close>

theorem loader_drops_incomplete_rows:
  assumes "load_data file = Inr d1"
  shows "\<exists>f. file = Some f \<and>
     map base d1 = map raw_base (filter (\<lambda>p. complete (snd p)) (enumerate 0 (rows f))) \<and>
     (\<forall>r\<in>set d1. Name r \<noteq> None \<and> Title r \<noteq> None \<and> Company r \<noteq> None) \<and>
     (\<forall>i<length (rows f). \<not> complete (rows f ! i) \<longrightarrow>
        i \<notin> idx ` set d1 \<and>
        (\<forall>d2. filter_senior_execs d1 = Inr d2 \<longrightarrow> i \<notin> idx ` set d2 \<and>
          (\<forall>d3. split_names d2 = Inr d3 \<longrightarrow> i \<notin> idx ` set d3 \<and>
            (\<forall>d4. add_domains d3 = Inr d4 \<longrightarrow> i \<notin> idx ` set d4 \<and>
               i \<notin> idx ` set (generate_emails d4) \<and>
               i \<notin> fst ` set (take MAX_EXECUTIVES (map project (generate_emails d4)))))))"
proof -
  from load_data_Inr [OF assms] obtain f where f: "file = Some f"
    and b1: "map base d1 = map raw_base (filter (\<lambda>p. complete (snd p)) (enumerate 0 (rows f)))"
    by blast
  have a: "Name r \<noteq> None \<and> Title r \<noteq> None \<and> Company r \<noteq> None" if "r \<in> set d1" for r
    using loaded_row [OF b1 subset_refl that] by (simp add: complete_def)
  have c: "i \<notin> idx ` set d1 \<and>
        (\<forall>d2. filter_senior_execs d1 = Inr d2 \<longrightarrow> i \<notin> idx ` set d2 \<and>
          (\<forall>d3. split_names d2 = Inr d3 \<longrightarrow> i \<notin> idx ` set d3 \<and>
            (\<forall>d4. add_domains d3 = Inr d4 \<longrightarrow> i \<notin> idx ` set d4 \<and>
               i \<notin> idx ` set (generate_emails d4) \<and>
               i \<notin> fst ` set (take MAX_EXECUTIVES (map project (generate_emails d4))))))"
    if n: "\<not> complete (rows f ! i)" for i
  proof -
    have 1: "i \<notin> idx ` set d1" by (rule absent_row [OF b1 subset_refl n])
    have 2: "i \<notin> idx ` set d2" if "filter_senior_execs d1 = Inr d2" for d2
      by (rule absent_row [OF b1 filter_senior_execs_sub [OF that] n])
    have 3: "i \<notin> idx ` set d3"
      if "filter_senior_execs d1 = Inr d2" "split_names d2 = Inr d3" for d2 d3
      by (rule absent_row [OF b1 _ n])
         (rule subset_trans [OF split_names_sub [OF that(2)] filter_senior_execs_sub [OF that(1)]])
    have 4: "i \<notin> idx ` set d4 \<and> i \<notin> idx ` set (generate_emails d4) \<and>
             i \<notin> fst ` set (take MAX_EXECUTIVES (map project (generate_emails d4)))"
      if "filter_senior_execs d1 = Inr d2" "split_names d2 = Inr d3" "add_domains d3 = Inr d4"
      for d2 d3 d4
    proof -
      have "idx ` set d4 = idx ` set d3"
        by (simp only: idx_image add_domains_base [OF that(3)])
      moreover have "idx ` set (generate_emails d4) = idx ` set d4"
        by (simp only: idx_image generate_emails_base)
      ultimately show ?thesis
        using 3 [OF that(1,2)] project_fst [of MAX_EXECUTIVES "generate_emails d4"] by auto
    qed
    from 1 2 3 4 show ?thesis by blast
  qed
  from f b1 a c show ?thesis by blast
qed


theorem loader_drops_incomplete_rows_witness:
  "load_data
     (Some \<lparr>columns = [''Name'', ''Title'', ''Company''],
            rows = [[''Name'' \<mapsto> ''Jane Doe'', ''Title'' \<mapsto> ''Chief Marketing Officer'',
                     ''Company'' \<mapsto> ''World Surf League''],
                    [''Name'' \<mapsto> ''Bob Ray'', ''Company'' \<mapsto> ''Acme'']]\<rparr>) =
   Inr [\<lparr>idx = 0, Name = Some ''Jane Doe'', Title = Some ''Chief Marketing Officer'',
         Company = Some ''World Surf League''\<rparr>] \<and>
   1 \<notin> idx ` set [\<lparr>idx = 0, Name = Some ''Jane Doe'', Title = Some ''Chief Marketing Officer'',
         Company = Some ''World Surf League''\<rparr>] \<and>
   map base [\<lparr>idx = 0, Name = Some ''Jane Doe'', Title = Some ''Chief Marketing Officer'',
         Company = Some ''World Surf League''\<rparr>] =
   map raw_base (filter (\<lambda>p. complete (snd p))
     (enumerate 0 [[''Name'' \<mapsto> ''Jane Doe'', ''Title'' \<mapsto> ''Chief Marketing Officer'',
                     ''Company'' \<mapsto> ''World Surf League''],
                    [''Name'' \<mapsto> ''Bob Ray'', ''Company'' \<mapsto> ''Acme'']]))"
proof -
  let ?f = "\<lparr>columns = [''Name'', ''Title'', ''Company''],
            rows = [[''Name'' \<mapsto> ''Jane Doe'', ''Title'' \<mapsto> ''Chief Marketing Officer'',
                     ''Company'' \<mapsto> ''World Surf League''],
                    [''Name'' \<mapsto> ''Bob Ray'', ''Company'' \<mapsto> ''Acme'']]\<rparr>"
  let ?d = "[\<lparr>idx = 0, Name = Some ''Jane Doe'', Title = Some ''Chief Marketing Officer'',
         Company = Some ''World Surf League''\<rparr>]"
  have h: "load_data (Some ?f) = Inr ?d"
    by code_simp
  have g: "map base d1 = map raw_base (filter (\<lambda>p. complete (snd p)) (enumerate 0 (rows f))) \<and>
      (\<forall>i<length (rows f). \<not> complete (rows f ! i) \<longrightarrow> i \<notin> idx ` set d1)"
    if "load_data fl = Inr d1" "fl = Some f" for fl d1 f
    using loader_drops_incomplete_rows [OF that(1)] that(2) by auto
  from g [OF h refl]
  have b: "map base ?d = map raw_base (filter (\<lambda>p. complete (snd p)) (enumerate 0 (rows ?f)))"
    and i: "\<forall>i<length (rows ?f). \<not> complete (rows ?f ! i) \<longrightarrow> i \<notin> idx ` set ?d"
    by (rule conjunct1, rule conjunct2)
  have n: "\<not> complete (rows ?f ! 1)" by (simp add: complete_def)
  have l: "1 < length (rows ?f)" by simp
  have a: "1 \<notin> idx ` set ?d" by (rule i [rule_format, OF l n])
  have r: "rows ?f = [[''Name'' \<mapsto> ''Jane Doe'', ''Title'' \<mapsto> ''Chief Marketing Officer'',
                     ''Company'' \<mapsto> ''World Surf League''],
                    [''Name'' \<mapsto> ''Bob Ray'', ''Company'' \<mapsto> ''Acme'']]" by simp
  from b have b': "map base ?d = map raw_base (filter (\<lambda>p. complete (snd p))
     (enumerate 0 [[''Name'' \<mapsto> ''Jane Doe'', ''Title'' \<mapsto> ''Chief Marketing Officer'',
                     ''Company'' \<mapsto> ''World Surf League''],
                    [''Name'' \<mapsto> ''Bob Ray'', ''Company'' \<mapsto> ''Acme'']]))"
    by (simp only: r)
  from h a b' show ?thesis by (intro conjI)
qed

lemma length_filter_enumerate:
  "length (filter (\<lambda>p. P (snd p)) (enumerate n xs)) = length (filter P xs)"
  by (induction xs arbitrary: n) simp_all

text \<open>
  Whenever the five stages succeed and the file can be written, the rows written are
  the first \<open>MAX_EXECUTIVES\<close> = 50 rows of the frame that survived all stages, whose
  rows are those of the input rows that pass every filter, in input order. Their number
  is the minimum of 50 and the number of input rows passing every filter.
\<close>

lemma output_rows_when_written:
  assumes "stages (input_file w) = Inr df" and "output_dir w \<or> can_mkdir w" and "can_write w"
  shows "\<exists>f out. input_file w = Some f \<and>
     map base df = map raw_base (filter (\<lambda>p. survives (snd p)) (enumerate 0 (rows f))) \<and>
     output_file (snd (main w)) = Some out \<and>
     body out = take MAX_EXECUTIVES (map (\<lambda>r. snd (project r)) df) \<and>
     length (body out) = min MAX_EXECUTIVES (length (filter survives (rows f))) \<and>
     length (body out) \<le> MAX_EXECUTIVES \<and> MAX_EXECUTIVES = 50"
proof -
  from stages_Inr [OF assms(1)] obtain f where f: "input_file w = Some f"
    and b: "map base df = map raw_base (filter (\<lambda>p. survives (snd p)) (enumerate 0 (rows f)))"
    by blast
  let ?out = "csv_of (take MAX_EXECUTIVES (map project df))"
  have o: "output_file (snd (main w)) = Some ?out"
    using assms by (simp add: main_output_file export_output_file)
  have bd: "body ?out = take MAX_EXECUTIVES (map (\<lambda>r. snd (project r)) df)"
    by (simp add: csv_of_def take_map)
  have "length df = length (map base df)" by simp
  also have "\<dots> = length (filter survives (rows f))"
    unfolding b by (simp add: length_filter_enumerate)
  finally have l: "length df = length (filter survives (rows f))" .
  have n: "length (body ?out) = min MAX_EXECUTIVES (length (filter survives (rows f)))"
    unfolding bd by (simp add: l min.commute)
  have m: "MAX_EXECUTIVES = 50" by (simp add: MAX_EXECUTIVES_def)
  from n have le: "length (body ?out) \<le> MAX_EXECUTIVES" by simp
  from f b o bd n le m show ?thesis by blast
qed

text \<open>
  C6. For every input the written output is to have min(maximum, number of surviving
  rows) rows. For an input none of whose rows survives that is a file of no rows, but
  the run ends with a \<open>KeyError\<close> and writes no file: at \<open>name_split[0]\<close> when no row
  passes the Executive Filter, at \<open>name_split[1]\<close> when the rows that pass it have
  single-token names.
\<close>

theorem main_no_survivor_example:
  "length (filter survives [[''Name'' \<mapsto> ''Bob Ray'', ''Title'' \<mapsto> ''Software Engineer'',
                            ''Company'' \<mapsto> ''Acme'']]) = 0 \<and>
   fst (main \<lparr>input_file = Some \<lparr>columns = [''Name'', ''Title'', ''Company''],
                 rows = [[''Name'' \<mapsto> ''Bob Ray'', ''Title'' \<mapsto> ''Software Engineer'',
                          ''Company'' \<mapsto> ''Acme'']]\<rparr>,
              output_dir = True, can_mkdir = True, can_write = True, output_file = None,
              stdout_encodes = True, stdout = []\<rparr>) = Some (KeyError (Position 0)) \<and>
   output_file (snd (main \<lparr>input_file = Some \<lparr>columns = [''Name'', ''Title'', ''Company''],
                 rows = [[''Name'' \<mapsto> ''Bob Ray'', ''Title'' \<mapsto> ''Software Engineer'',
                          ''Company'' \<mapsto> ''Acme'']]\<rparr>,
              output_dir = True, can_mkdir = True, can_write = True, output_file = None,
              stdout_encodes = True, stdout = []\<rparr>)) = None \<and>
   length (filter survives [[''Name'' \<mapsto> ''Cher'', ''Title'' \<mapsto> ''CEO'',
                            ''Company'' \<mapsto> ''Acme'']]) = 0 \<and>
   fst (main \<lparr>input_file = Some \<lparr>columns = [''Name'', ''Title'', ''Company''],
                 rows = [[''Name'' \<mapsto> ''Cher'', ''Title'' \<mapsto> ''CEO'',
                          ''Company'' \<mapsto> ''Acme'']]\<rparr>,
              output_dir = True, can_mkdir = True, can_write = True, output_file = None,
              stdout_encodes = True, stdout = []\<rparr>) = Some (KeyError (Position 1)) \<and>
   output_file (snd (main \<lparr>input_file = Some \<lparr>columns = [''Name'', ''Title'', ''Company''],
                 rows = [[''Name'' \<mapsto> ''Cher'', ''Title'' \<mapsto> ''CEO'',
                          ''Company'' \<mapsto> ''Acme'']]\<rparr>,
              output_dir = True, can_mkdir = True, can_write = True, output_file = None,
              stdout_encodes = True, stdout = []\<rparr>)) = None \<and>
   min MAX_EXECUTIVES 0 = 0"
  by code_simp

lemma distinct_loaded:
  assumes "map base d1 = map raw_base (filter (\<lambda>p. complete (snd p)) (enumerate 0 rs))"
  shows "distinct (map idx d1)"
proof -
  have "map idx d1 = map fst (map base d1)" by (simp add: base_def comp_def)
  also have "\<dots> = map fst (filter (\<lambda>p. complete (snd p)) (enumerate 0 rs))"
    unfolding assms by (simp add: raw_base_def comp_def)
  finally have e: "map idx d1 = map fst (filter (\<lambda>p. complete (snd p)) (enumerate 0 rs))" .
  have "distinct (map fst (enumerate 0 rs))" by simp
  then show ?thesis unfolding e by (rule distinct_map_filter)
qed

lemma in_map_base: "r \<in> set d \<Longrightarrow> map base d = map base d' \<Longrightarrow> base r \<in> base ` set d'"
proof -
  assume "r \<in> set d" "map base d = map base d'"
  then have "base r \<in> set (map base d')" by (metis imageI set_map)
  then show ?thesis by simp
qed

text \<open>
  C9. For every record that survives to the output, no stage after the Loader changes
  Name, Title or Company: the record has the same index and the same three cells in
  the frame of every stage from \<open>load_data\<close> on, where indices are distinct, and they
  are the cells of the input row at that index. The later stages only add columns, so
  the Title and Company projected for output are the values loaded from the input row.
\<close>

theorem loaded_fields_unchanged:
  assumes "load_data file = Inr d1" and "filter_senior_execs d1 = Inr d2"
    and "split_names d2 = Inr d3" and "add_domains d3 = Inr d4"
  shows "\<exists>f. file = Some f \<and> distinct (map idx d1) \<and>
    (\<forall>r\<in>set (generate_emails d4).
       base r \<in> base ` set d4 \<and> base r \<in> base ` set d3 \<and> base r \<in> base ` set d2 \<and>
       base r \<in> base ` set d1 \<and>
       idx r < length (rows f) \<and>
       Name r = (rows f ! idx r) ''Name'' \<and>
       Title r = (rows f ! idx r) ''Title'' \<and>
       Company r = (rows f ! idx r) ''Company'' \<and>
       project r = (idx r, [FirstName r, LastName r, (rows f ! idx r) ''Title'',
                            (rows f ! idx r) ''Company'', Email_1 r, Email_2 r]))"
proof -
  from load_data_Inr [OF assms(1)] obtain f where f: "file = Some f"
    and b1: "map base d1 = map raw_base (filter (\<lambda>p. complete (snd p)) (enumerate 0 (rows f)))"
    by blast
  have s5: "map base (generate_emails d4) = map base d4" by (rule generate_emails_base)
  have s4: "map base d4 = map base d3" by (rule add_domains_base [OF assms(4)])
  have s3: "set (map base d3) \<subseteq> set (map base d2)" by (rule split_names_sub [OF assms(3)])
  have s2: "set (map base d2) \<subseteq> set (map base d1)"
    by (rule filter_senior_execs_sub [OF assms(2)])
  have "base r \<in> base ` set d4 \<and> base r \<in> base ` set d3 \<and> base r \<in> base ` set d2 \<and>
       base r \<in> base ` set d1 \<and>
       idx r < length (rows f) \<and>
       Name r = (rows f ! idx r) ''Name'' \<and>
       Title r = (rows f ! idx r) ''Title'' \<and>
       Company r = (rows f ! idx r) ''Company'' \<and>
       project r = (idx r, [FirstName r, LastName r, (rows f ! idx r) ''Title'',
                            (rows f ! idx r) ''Company'', Email_1 r, Email_2 r])"
    if r: "r \<in> set (generate_emails d4)" for r
  proof -
    from r s5 have 4: "base r \<in> base ` set d4" by (rule in_map_base)
    with s4 have 3: "base r \<in> base ` set d3" by (metis set_map)
    with s3 have 2: "base r \<in> base ` set d2" by auto
    with s2 have 1: "base r \<in> base ` set d1" by auto
    have sub: "set (map base (generate_emails d4)) \<subseteq> set (map base d1)"
      using s5 s4 s3 s2 by auto
    note l = loaded_row [OF b1 sub r]
    from l have "project r = (idx r, [FirstName r, LastName r, (rows f ! idx r) ''Title'',
                            (rows f ! idx r) ''Company'', Email_1 r, Email_2 r])"
      by (simp add: project_def)
    with 1 2 3 4 l show ?thesis by simp
  qed
  with f distinct_loaded [OF b1] show ?thesis by blast
qed

theorem loaded_fields_unchanged_witness:
  "load_data (Some \<lparr>columns = [''Name'', ''Title'', ''Company''],
            rows = [[''Name'' \<mapsto> ''Bob Ray'', ''Company'' \<mapsto> ''Acme''],
                    [''Name'' \<mapsto> ''Jane Doe'', ''Title'' \<mapsto> ''Chief Marketing Officer'',
                     ''Company'' \<mapsto> ''World Surf League'']]\<rparr>) =
     Inr [\<lparr>idx = 1, Name = Some ''Jane Doe'', Title = Some ''Chief Marketing Officer'',
           Company = Some ''World Surf League''\<rparr>] \<and>
   map project (generate_emails
     [\<lparr>idx = 1, Name = Some ''Jane Doe'', Title = Some ''Chief Marketing Officer'',
       Company = Some ''World Surf League'', FirstName = Some ''Jane'', LastName = Some ''Doe'',
       Domain_col = Some ''worldsurfleague.com''\<rparr>]) =
     [(1, [Some ''Jane'', Some ''Doe'', Some ''Chief Marketing Officer'',
           Some ''World Surf League'', Some ''jane.doe@worldsurfleague.com'',
           Some ''jane@worldsurfleague.com''])] \<and>
   Title (hd (generate_emails
     [\<lparr>idx = 1, Name = Some ''Jane Doe'', Title = Some ''Chief Marketing Officer'',
       Company = Some ''World Surf League'', FirstName = Some ''Jane'', LastName = Some ''Doe'',
       Domain_col = Some ''worldsurfleague.com''\<rparr>])) =
     [''Name'' \<mapsto> ''Jane Doe'', ''Title'' \<mapsto> ''Chief Marketing Officer'',
      ''Company'' \<mapsto> ''World Surf League''] ''Title''"
proof -
  let ?f = "\<lparr>columns = [''Name'', ''Title'', ''Company''],
            rows = [[''Name'' \<mapsto> ''Bob Ray'', ''Company'' \<mapsto> ''Acme''],
                    [''Name'' \<mapsto> ''Jane Doe'', ''Title'' \<mapsto> ''Chief Marketing Officer'',
                     ''Company'' \<mapsto> ''World Surf League'']]\<rparr>"
  let ?d1 = "[\<lparr>idx = 1, Name = Some ''Jane Doe'', Title = Some ''Chief Marketing Officer'',
           Company = Some ''World Surf League''\<rparr>]"
  let ?d3 = "[\<lparr>idx = 1, Name = Some ''Jane Doe'', Title = Some ''Chief Marketing Officer'',
           Company = Some ''World Surf League'', FirstName = Some ''Jane'',
           LastName = Some ''Doe''\<rparr>]"
  let ?d4 = "[\<lparr>idx = 1, Name = Some ''Jane Doe'', Title = Some ''Chief Marketing Officer'',
       Company = Some ''World Surf League'', FirstName = Some ''Jane'', LastName = Some ''Doe'',
       Domain_col = Some ''worldsurfleague.com''\<rparr>]"
  have 1: "load_data (Some ?f) = Inr ?d1" by code_simp
  have 2: "filter_senior_execs ?d1 = Inr ?d1" by code_simp
  have 3: "split_names ?d1 = Inr ?d3" by code_simp
  have 4: "add_domains ?d3 = Inr ?d4" by code_simp
  have p: "map project (generate_emails ?d4) =
     [(1, [Some ''Jane'', Some ''Doe'', Some ''Chief Marketing Officer'',
           Some ''World Surf League'', Some ''jane.doe@worldsurfleague.com'',
           Some ''jane@worldsurfleague.com''])]" by code_simp
  have g: "Title r = (rows f ! idx r) ''Title''"
    if "load_data fl = Inr d1" "filter_senior_execs d1 = Inr d2" "split_names d2 = Inr d3"
      "add_domains d3 = Inr d4" "fl = Some f" "r \<in> set (generate_emails d4)"
    for fl d1 d2 d3 d4 f r
    using loaded_fields_unchanged [OF that(1-4)] that(5,6) by auto
  have n: "generate_emails ?d4 \<noteq> []" by (simp add: generate_emails_def)
  have i: "idx (hd (generate_emails ?d4)) = 1" by (simp add: generate_emails_def)
  have r: "rows ?f ! 1 = [''Name'' \<mapsto> ''Jane Doe'', ''Title'' \<mapsto> ''Chief Marketing Officer'',
      ''Company'' \<mapsto> ''World Surf League'']" by simp
  from g [OF 1 2 3 4 refl hd_in_set [OF n]]
  have "Title (hd (generate_emails ?d4)) =
     [''Name'' \<mapsto> ''Jane Doe'', ''Title'' \<mapsto> ''Chief Marketing Officer'',
      ''Company'' \<mapsto> ''World Surf League''] ''Title''"
    by (simp only: i r)
  with 1 p show ?thesis by (intro conjI)
qed

lemma strip_id: "s \<noteq> [] \<Longrightarrow> \<not> isspace (hd s) \<Longrightarrow> \<not> isspace (last s) \<Longrightarrow> strip s = s"
proof -
  assume s: "s \<noteq> []" and h: "\<not> isspace (hd s)" and l: "\<not> isspace (last s)"
  from s h have "dropWhile isspace s = s" by (cases s) simp_all
  moreover from s l have "dropWhile isspace (rev s) = rev s"
    by (cases "rev s") (simp_all add: last_rev [symmetric] hd_rev)
  ultimately show ?thesis by (simp add: strip_def)
qed

lemma isspace_space: "isspace (CHR '' '')"
  by (simp add: isspace_def)

lemma lower_char_space: "lower_char (CHR '' '') = CHR '' ''"
  by (simp add: lower_char_eq_space)

lemma single_row_load:
  "load_data (Some \<lparr>columns = [''Name'', ''Title'', ''Company''],
                     rows = [[''Name'' \<mapsto> n, ''Title'' \<mapsto> t, ''Company'' \<mapsto> c]]\<rparr>) =
   Inr [\<lparr>idx = 0, Name = Some n, Title = Some t, Company = Some c\<rparr>]"
  by (simp add: load_data_def read_excel_def select_columns_def expected_columns_def dropna_def)

lemma single_row_split:
  assumes "a \<noteq> []" and "c \<noteq> []" and "\<forall>x\<in>set a. \<not> isspace x" and "\<forall>x\<in>set c. \<not> isspace x"
  shows "split_names [\<lparr>idx = i, Name = Some (a @ '' '' @ b @ '' '' @ c), Title = t, Company = co\<rparr>] =
         Inr [\<lparr>idx = i, Name = Some (a @ '' '' @ b @ '' '' @ c), Title = t, Company = co,
               FirstName = Some a, LastName = Some (b @ '' '' @ c)\<rparr>]"
proof -
  let ?n = "a @ '' '' @ b @ '' '' @ c"
  let ?r = "\<lparr>idx = i, Name = Some ?n, Title = t, Company = co\<rparr>"
  from assms(1,3) have h: "\<not> isspace (hd ?n)" by (cases a) simp_all
  from assms(2,4) have l: "\<not> isspace (last ?n)" by simp
  from assms(1) have "?n \<noteq> []" by simp
  from strip_id [OF this h l] have s: "strip ?n = a @ CHR '' '' # (b @ '' '' @ c)" by simp
  from assms(3) isspace_space have n: "CHR '' '' \<notin> set a" by blast
  have "split_row ?r = Some \<lparr>idx = i, Name = Some ?n, Title = t, Company = co,
               FirstName = Some a, LastName = Some (b @ '' '' @ c)\<rparr>"
    unfolding split_row_iff using s n by simp
  then show ?thesis
    using split_names_some [of "[?r]"] by simp
qed

text \<open>
  C10. There are valid input rows that survive every stage and whose Email_1 contains a
  space character: for every row whose Name is a word, a space, any text, a space and
  a word, with a senior title, a run that can write its file writes that row with
  LastName keeping the inner space and with an Email_1 that contains it, and ends
  without exception when the standard output can encode the summary.
\<close>

theorem email_1_contains_space:
  assumes "a \<noteq> []" and "c \<noteq> []" and "\<forall>x\<in>set a. \<not> isspace x" and "\<forall>x\<in>set c. \<not> isspace x"
    and "senior_title (Some t)"
    and "input_file w = Some \<lparr>columns = [''Name'', ''Title'', ''Company''],
                 rows = [[''Name'' \<mapsto> a @ '' '' @ b @ '' '' @ c, ''Title'' \<mapsto> t,
                          ''Company'' \<mapsto> co]]\<rparr>"
    and "output_dir w \<or> can_mkdir w" and "can_write w"
  shows "(stdout_encodes w \<longrightarrow> fst (main w) = None) \<and>
         output_file (snd (main w)) =
           Some \<lparr>header = final_columns,
                 body = [[Some a, Some (b @ '' '' @ c), Some t, Some co,
                          Some (lower a @ ''.'' @ lower b @ '' '' @ lower c @ ''@'' @ infer_domain co),
                          Some (lower a @ ''@'' @ infer_domain co)]]\<rparr> \<and>
         CHR '' '' \<in> set (lower a @ ''.'' @ lower b @ '' '' @ lower c @ ''@'' @ infer_domain co)"
proof -
  let ?n = "a @ '' '' @ b @ '' '' @ c"
  let ?r1 = "\<lparr>idx = 0, Name = Some ?n, Title = Some t, Company = Some co\<rparr>"
  let ?r3 = "\<lparr>idx = 0, Name = Some ?n, Title = Some t, Company = Some co,
              FirstName = Some a, LastName = Some (b @ '' '' @ c)\<rparr>"
  let ?r4 = "\<lparr>idx = 0, Name = Some ?n, Title = Some t, Company = Some co,
              FirstName = Some a, LastName = Some (b @ '' '' @ c),
              Domain_col = Some (infer_domain co)\<rparr>"
  let ?e1 = "lower a @ ''.'' @ lower b @ '' '' @ lower c @ ''@'' @ infer_domain co"
  let ?e2 = "lower a @ ''@'' @ infer_domain co"
  have 1: "load_data (input_file w) = Inr [?r1]"
    unfolding assms(6) by (simp add: single_row_load)
  have 2: "filter_senior_execs [?r1] = Inr [?r1]"
    using assms(5) by (simp add: filter_senior_execs_eq)
  have 3: "split_names [?r1] = Inr [?r3]"
    by (rule single_row_split [OF assms(1-4)])
  have 4: "add_domains [?r3] = Inr [?r4]"
    by (simp add: add_domains_def)
  have l: "lower (b @ CHR '' '' # c) = lower b @ CHR '' '' # lower c"
    by (simp add: lower_def lower_char_space)
  have 5: "map project (generate_emails [?r4]) =
           [(0, [Some a, Some (b @ '' '' @ c), Some t, Some co, Some ?e1, Some ?e2])]"
    by (simp add: generate_emails_def project_def str_add_def str_lower_def l)
  have s: "stages (input_file w) = Inr (generate_emails [?r4])"
    by (simp only: stages_def 1 2 3 4 sum.case)
  have "stdout_encodes w \<longrightarrow> fst (main w) = None"
    using assms(7,8) by (simp add: main_fst_None s export_fst)
  moreover have "output_file (snd (main w)) =
           Some (csv_of (take MAX_EXECUTIVES (map project (generate_emails [?r4]))))"
    using assms(7,8) by (simp only: main_output_file s sum.case export_output_file) simp
  then have "output_file (snd (main w)) =
           Some \<lparr>header = final_columns,
                 body = [[Some a, Some (b @ '' '' @ c), Some t, Some co, Some ?e1, Some ?e2]]\<rparr>"
    by (simp only: 5) (simp add: csv_of_def MAX_EXECUTIVES_def)
  moreover have "CHR '' '' \<in> set ?e1" by simp
  ultimately show ?thesis by (intro conjI)
qed

theorem email_1_contains_space_witness:
  "fst (main \<lparr>input_file = Some \<lparr>columns = [''Name'', ''Title'', ''Company''],
                 rows = [[''Name'' \<mapsto> ''Mary Ann Smith'', ''Title'' \<mapsto> ''CEO'',
                          ''Company'' \<mapsto> ''Acme'']]\<rparr>,
               output_dir = False, can_mkdir = True, can_write = True, output_file = None,
               stdout_encodes = True, stdout = []\<rparr>) = None \<and>
   output_file (snd (main \<lparr>input_file = Some \<lparr>columns = [''Name'', ''Title'', ''Company''],
                 rows = [[''Name'' \<mapsto> ''Mary Ann Smith'', ''Title'' \<mapsto> ''CEO'',
                          ''Company'' \<mapsto> ''Acme'']]\<rparr>,
               output_dir = False, can_mkdir = True, can_write = True, output_file = None,
               stdout_encodes = True, stdout = []\<rparr>)) =
     Some \<lparr>header = [''FirstName'', ''LastName'', ''Title'', ''Company'', ''Email_1'', ''Email_2''],
           body = [[Some ''Mary'', Some ''Ann Smith'', Some ''CEO'', Some ''Acme'',
                    Some ''mary.ann smith@acme.com'', Some ''mary@acme.com'']]\<rparr> \<and>
   CHR '' '' \<in> set ''mary.ann smith@acme.com''"
proof -
  let ?w = "\<lparr>input_file = Some \<lparr>columns = [''Name'', ''Title'', ''Company''],
                 rows = [[''Name'' \<mapsto> ''Mary Ann Smith'', ''Title'' \<mapsto> ''CEO'',
                          ''Company'' \<mapsto> ''Acme'']]\<rparr>,
               output_dir = False, can_mkdir = True, can_write = True, output_file = None,
               stdout_encodes = True, stdout = []\<rparr>"
  have a: "''Mary'' \<noteq> []" by simp
  have c: "''Smith'' \<noteq> []" by simp
  have sa: "\<forall>x\<in>set ''Mary''. \<not> isspace x" by code_simp
  have sc: "\<forall>x\<in>set ''Smith''. \<not> isspace x" by code_simp
  have t: "senior_title (Some ''CEO'')" by code_simp
  have i: "input_file ?w = Some \<lparr>columns = [''Name'', ''Title'', ''Company''],
                 rows = [[''Name'' \<mapsto> ''Mary'' @ '' '' @ ''Ann'' @ '' '' @ ''Smith'',
                          ''Title'' \<mapsto> ''CEO'', ''Company'' \<mapsto> ''Acme'']]\<rparr>"
    by simp
  have d: "output_dir ?w \<or> can_mkdir ?w" by simp
  have wr: "can_write ?w" by simp
  have en: "stdout_encodes ?w" by simp
  have e1: "lower ''Mary'' @ ''.'' @ lower ''Ann'' @ '' '' @ lower ''Smith'' @ ''@'' @
            infer_domain ''Acme'' = ''mary.ann smith@acme.com''"
    by code_simp
  have e2: "lower ''Mary'' @ ''@'' @ infer_domain ''Acme'' = ''mary@acme.com''"
    by code_simp
  have l: "''Ann'' @ '' '' @ ''Smith'' = ''Ann Smith''" by simp
  note r = email_1_contains_space [OF a c sa sc t i d wr]
  from r have r1: "stdout_encodes ?w \<longrightarrow> fst (main ?w) = None" by (rule conjunct1)
  from r have r2: "output_file (snd (main ?w)) =
     Some \<lparr>header = [''FirstName'', ''LastName'', ''Title'', ''Company'', ''Email_1'', ''Email_2''],
           body = [[Some ''Mary'', Some ''Ann Smith'', Some ''CEO'', Some ''Acme'',
                    Some ''mary.ann smith@acme.com'', Some ''mary@acme.com'']]\<rparr> \<and>
     CHR '' '' \<in> set ''mary.ann smith@acme.com''"
    unfolding e1 e2 l final_columns_def by (rule conjunct2)
  from r2 have r3: "output_file (snd (main ?w)) =
     Some \<lparr>header = [''FirstName'', ''LastName'', ''Title'', ''Company'', ''Email_1'', ''Email_2''],
           body = [[Some ''Mary'', Some ''Ann Smith'', Some ''CEO'', Some ''Acme'',
                    Some ''mary.ann smith@acme.com'', Some ''mary@acme.com'']]\<rparr>"
    and r4: "CHR '' '' \<in> set ''mary.ann smith@acme.com''"
    by (rule conjunct1, rule conjunct2)
  from mp [OF r1 en] r3 r4 show ?thesis by (intro conjI)
qed

end
